theory Spec2Isabelle
  imports Main "HOL-Library.Monad_Syntax" "HOL-Library.Sublist"
begin

section \<open>Names and paths\<close>

text \<open>
  \<^verbatim>\<open>std::string\<close> is a list of bytes. The regular expression of
  \<^verbatim>\<open>FileSystem::storage_name_rule\<close> is \<^verbatim>\<open>[A-Za-z]{3,24}\<close>, and
  \<^verbatim>\<open>regex_match\<close> accepts a string only when the whole of it matches: every byte lies
  in one of the two ranges, and there are between 3 and 24 of them.
\<close>

definition is_ascii_letter :: "char \<Rightarrow> bool" where
  "is_ascii_letter c \<longleftrightarrow>
     (let n = (of_char c :: nat) in (65 \<le> n \<and> n \<le> 90) \<or> (97 \<le> n \<and> n \<le> 122))"

definition storage_name_rule :: "string \<Rightarrow> bool" where
  "storage_name_rule name \<longleftrightarrow>
     3 \<le> length name \<and> length name \<le> 24 \<and> list_all is_ascii_letter name"

definition to_lower :: "char \<Rightarrow> char" where
  "to_lower c =
     (let n = (of_char c :: nat) in if 65 \<le> n \<and> n \<le> 90 then char_of (n + 32) else c)"

text \<open>
  Modelled from the spec: \<^verbatim>\<open>equals_insensitive\<close> is declared in \<^verbatim>\<open>Utils.h\<close>, which is
  not among the sources. The specification calls the comparison of names case-insensitive:
  two strings are equal when they agree byte by byte after ASCII lower-casing.
\<close>

definition equals_insensitive :: "string \<Rightarrow> string \<Rightarrow> bool" where
  "equals_insensitive a b \<longleftrightarrow> map to_lower a = map to_lower b"

text \<open>
  A \<^verbatim>\<open>std::filesystem::path\<close> is the list of its components; \<^verbatim>\<open>operator/\<close> adds one
  component and \<^verbatim>\<open>parent_path\<close> drops the last one.
\<close>

type_synonym path = "string list"

definition path_append :: "path \<Rightarrow> string \<Rightarrow> path" where
  "path_append p c = p @ [c]"

definition parent_path :: "path \<Rightarrow> path" where
  "parent_path p = butlast p"

section \<open>Storage handles\<close>

text \<open>
  Modelled from the spec: the class \<^verbatim>\<open>FileSystemStorage\<close> is declared in
  \<^verbatim>\<open>FileSystemStorage.h\<close>, which is not among the sources. The specification gives a handle a
  name and a directory, bound at construction, and two states: active, and revoked for good.
  \<^verbatim>\<open>revoke_permission\<close> moves the handle to the revoked state and does nothing else.
\<close>

datatype handle_state = Active | Revoked

record FileSystemStorage =
  storage_name :: string
  storage_path :: path
  permission :: handle_state

text \<open>
  A \<^verbatim>\<open>Red::Handle<FileSystemStorage>\<close> is a shared reference: the registry and the client
  hold the same object, and a revocation through one is seen through the other. The objects live
  in a store, a list indexed by address; a handle is an address, and the null handle that the
  source returns on every failure is the \<open>Inl\<close> side of the result.
\<close>

type_synonym handle_ref = nat

section \<open>The world outside: file system and logger\<close>

datatype copy_option = overwrite_existing | recursive

datatype fs_call =
    FsExists path
  | FsCreateDirectory path
  | FsCopy path path "copy_option list"
  | FsRemoveAll path

text \<open>
  An \<^verbatim>\<open>std::error_code\<close> is either clear (\<open>None\<close>) or set, with its message.
  The file system answers every call with a return value and an error code; the answer may
  depend on everything that was called before. \<^verbatim>\<open>std::filesystem::absolute(".")\<close> has no
  error code argument: it returns a path or throws.
\<close>

type_synonym error_code = "string option"

record world =
  absolute_dot :: "path option"
  respond :: "fs_call list \<Rightarrow> fs_call \<Rightarrow> bool \<times> error_code"

datatype level = Info | Warn | Error

datatype log_arg = ArgString string | ArgPath path

type_synonym log_entry = "level \<times> string \<times> log_arg list"

section \<open>The registry\<close>

text \<open>
  The static members of \<^verbatim>\<open>FileSystem\<close>, followed by what the program acts on: the store of
  handle objects, the file system calls issued so far and the lines handed to the logger.
  \<^verbatim>\<open>storages\<close> is an \<^verbatim>\<open>std::unordered_map\<close>: its keys are distinct strings, here in the
  order in which the loop of \<^verbatim>\<open>find_storage\<close> visits them.
\<close>

record state =
  handle :: "nat option"
  logger :: "nat option"
  game_path :: path
  storages_path :: path
  storages :: "(string \<times> handle_ref) list"
  has_error :: bool
  objects :: "FileSystemStorage list"
  fs_calls :: "fs_call list"
  messages :: "log_entry list"

definition initial :: state where
  "initial = \<lparr> handle = None, logger = None, game_path = [], storages_path = [],
     storages = [], has_error = True, objects = [], fs_calls = [], messages = [] \<rparr>"

text \<open>
  The four ways in which an acquisition returns the null handle, named after the
  specification's taxonomy; the source tells them apart by the line it logs.
\<close>

datatype failure = ServiceDisabled | InvalidName | AlreadyAcquired | ProvisionFailed

text \<open>
  A call through the logger dereferences the pointer \<^verbatim>\<open>logger\<close>. Through a null pointer the
  program does not continue: the operation has no result (\<open>None\<close>).
\<close>

definition log_message :: "level \<Rightarrow> string \<Rightarrow> log_arg list \<Rightarrow> state \<Rightarrow> state option" where
  "log_message lv fmt args s =
     (case logger s of
        None \<Rightarrow> None
      | Some l \<Rightarrow> Some (s\<lparr>messages := messages s @ [(lv, fmt, args)]\<rparr>))"

definition fs_do :: "world \<Rightarrow> fs_call \<Rightarrow> state \<Rightarrow> (bool \<times> error_code) \<times> state" where
  "fs_do w c s = (respond w (fs_calls s) c, s\<lparr>fs_calls := fs_calls s @ [c]\<rparr>)"

definition request_directory :: "world \<Rightarrow> path \<Rightarrow> state \<Rightarrow> bool \<times> state" where
  "request_directory w p_path s =
     (let ((is_present, error), s1) = fs_do w (FsExists p_path) s in
      if error \<noteq> None then (False, s1)
      else if is_present then (True, s1)
      else
        let ((is_present, error), s2) = fs_do w (FsCreateDirectory p_path) s1 in
        if \<not> is_present \<or> error \<noteq> None then (False, s2) else (True, s2))"

definition migrate_directory :: "world \<Rightarrow> path \<Rightarrow> path \<Rightarrow> state \<Rightarrow> (bool \<times> state) option" where
  "migrate_directory w p_old_path p_new_path s =
     (let ((has_old_path, error), s1) = fs_do w (FsExists p_old_path) s in
      if error \<noteq> None then Some (False, s1)
      else if \<not> has_old_path then Some (True, s1)
      else
        let ((_, error), s2) =
              fs_do w (FsCopy p_old_path p_new_path [overwrite_existing, recursive]) s1 in
        case error of
          Some msg \<Rightarrow>
            do {
              s3 \<leftarrow> log_message Error ''Could not migrate \"storages\" due to: %s.''
                      [ArgString msg] s2;
              Some (False, s3)
            }
        | None \<Rightarrow> Some (True, s2))"

fun find_storage :: "(string \<times> handle_ref) list \<Rightarrow> string \<Rightarrow> handle_ref option" where
  "find_storage [] p_name = None"
| "find_storage (storage # rest) p_name =
     (if equals_insensitive (fst storage) p_name then Some (snd storage)
      else find_storage rest p_name)"

text \<open>
  \<^verbatim>\<open>storages[name] = storage\<close>: the value of an existing key is replaced where it stands, a
  new key is added.
\<close>

fun assign :: "string \<Rightarrow> handle_ref \<Rightarrow> (string \<times> handle_ref) list \<Rightarrow> (string \<times> handle_ref) list" where
  "assign k v [] = [(k, v)]"
| "assign k v (e # rest) = (if fst e = k then (k, v) # rest else e # assign k v rest)"

definition revoke_permission :: "handle_ref \<Rightarrow> state \<Rightarrow> state" where
  "revoke_permission h s =
     s\<lparr>objects := (objects s)[h := (objects s ! h)\<lparr>permission := Revoked\<rparr>]\<rparr>"

definition make_handle :: "string \<Rightarrow> path \<Rightarrow> state \<Rightarrow> handle_ref \<times> state" where
  "make_handle name p s =
     (length (objects s),
      s\<lparr>objects := objects s @
          [\<lparr>storage_name = name, storage_path = p, permission = Active\<rparr>]\<rparr>)"

text \<open>
  The two directories below the game's directory: \<^verbatim>\<open>game_path / "r6" / "storages"\<close>, and
  the old location that \<^verbatim>\<open>load\<close> and \<^verbatim>\<open>unload\<close> both call \<^verbatim>\<open>old_path\<close>.
\<close>

definition storages_dir :: "path \<Rightarrow> path" where
  "storages_dir gp = path_append (path_append gp ''r6'') ''storages''"

definition legacy_path :: "path \<Rightarrow> path" where
  "legacy_path gp =
     path_append (path_append (path_append (path_append gp ''red4ext'') ''plugins'')
       ''RedFileSystem'') ''storages''"

definition load :: "world \<Rightarrow> nat option \<Rightarrow> nat option \<Rightarrow> state \<Rightarrow> state option" where
  "load w p_handle p_logger s =
     (let s0 = s\<lparr>handle := p_handle, logger := p_logger\<rparr> in
      case absolute_dot w of
        None \<Rightarrow> None
      | Some p \<Rightarrow>
          let gp = parent_path (parent_path p);
              sp = storages_dir gp;
              s1 = s0\<lparr>game_path := gp, storages_path := sp\<rparr>;
              (is_present, s2) = request_directory w sp s1
          in
          if \<not> is_present then
            do {
              s3 \<leftarrow> log_message Error ''Failed to create directory at \"%s\".'' [ArgPath sp]
                      (s2\<lparr>has_error := True\<rparr>);
              log_message Error ''RedFileSystem has been disabled.'' [] s3
            }
          else
            let old_path = legacy_path gp in
            do {
              (migrated, s3) \<leftarrow> migrate_directory w old_path sp s2;
              if \<not> migrated then
                do {
                  s4 \<leftarrow> log_message Warn
                          ''Failed to migrate directory from \"%s\" to \"%s\".''
                          [ArgPath old_path, ArgPath sp] (s3\<lparr>has_error := True\<rparr>);
                  log_message Warn ''You need to manually move content yourself.'' [] s4
                }
              else
                log_message Info ''RedFileSystem has been enabled.'' []
                  (s3\<lparr>has_error := False\<rparr>)
            })"

definition unload :: "world \<Rightarrow> state \<Rightarrow> state option" where
  "unload w s =
     (let old_path = legacy_path (game_path s);
          (_, s1) = fs_do w (FsRemoveAll old_path) s;
          s2 = s1\<lparr>storages := [], has_error := True\<rparr>
      in
      do {
        s3 \<leftarrow> log_message Info ''RedFileSystem has been terminated.'' [] s2;
        Some (s3\<lparr>handle := None, logger := None\<rparr>)
      })"

definition get_storage :: "world \<Rightarrow> string \<Rightarrow> state \<Rightarrow> ((failure + handle_ref) \<times> state) option" where
  "get_storage w name s =
     (if has_error s then
        do {
          s1 \<leftarrow> log_message Error ''RedFileSystem is disabled for all mods.'' [] s;
          Some (Inl ServiceDisabled, s1)
        }
      else if \<not> storage_name_rule name \<or> equals_insensitive name ''shared'' then
        do {
          s1 \<leftarrow> log_message Error ''Name of storage \"%s\" is not allowed.'' [ArgString name] s;
          s2 \<leftarrow> log_message Error ''See the documentation to fix this issue.'' [] s1;
          Some (Inl InvalidName, s2)
        }
      else
        case find_storage (storages s) name of
          Some storage \<Rightarrow>
            do {
              s2 \<leftarrow> log_message Error
                      (''Attempt to access storage \"%s\" several times. '' @
                       ''Only one mod can access its own storage with '' @
                       ''RedFileSystem. Access to this storage has been permanently '' @
                       ''revoked for this session.'')
                      [ArgString name] (revoke_permission storage s);
              Some (Inl AlreadyAcquired, s2)
            }
        | None \<Rightarrow>
            let p = path_append (storages_path s) name;
                (is_present, s1) = request_directory w p s
            in
            if \<not> is_present then
              do {
                s2 \<leftarrow> log_message Error ''Failed to create storage \"%s\".'' [ArgString name] s1;
                Some (Inl ProvisionFailed, s2)
              }
            else
              let (storage, s2) = make_handle name p s1;
                  s3 = s2\<lparr>storages := assign name storage (storages s2)\<rparr>
              in
              do {
                s4 \<leftarrow> log_message Info ''Access to storage \"%s\" has been granted.''
                        [ArgString name] s3;
                Some (Inr storage, s4)
              })"

definition get_shared_storage :: "world \<Rightarrow> state \<Rightarrow> ((failure + handle_ref) \<times> state) option" where
  "get_shared_storage w s =
     (if has_error s then
        do {
          s1 \<leftarrow> log_message Error ''RedFileSystem is disabled.'' [] s;
          Some (Inl ServiceDisabled, s1)
        }
      else
        let name = ''shared'' in
        case find_storage (storages s) name of
          Some storage \<Rightarrow>
            do {
              s1 \<leftarrow> log_message Info ''Access to shared storage has been granted.'' [] s;
              Some (Inr storage, s1)
            }
        | None \<Rightarrow>
            let p = path_append (storages_path s) name;
                (is_present, s1) = request_directory w p s
            in
            if \<not> is_present then
              do {
                s2 \<leftarrow> log_message Error ''Failed to create shared storage.'' [] s1;
                Some (Inl ProvisionFailed, s2)
              }
            else
              let (storage, s2) = make_handle name p s1;
                  s3 = s2\<lparr>storages := assign name storage (storages s2)\<rparr>
              in
              do {
                s4 \<leftarrow> log_message Info ''Access to shared storage has been granted.'' [] s3;
                Some (Inr storage, s4)
              })"

section \<open>Sequences of calls\<close>

datatype call = Load "nat option" "nat option" | Unload | GetStorage string | GetSharedStorage

fun step :: "world \<Rightarrow> call \<Rightarrow> state \<Rightarrow> state option" where
  "step w (Load p_handle p_logger) s = load w p_handle p_logger s"
| "step w Unload s = unload w s"
| "step w (GetStorage name) s = map_option snd (get_storage w name s)"
| "step w GetSharedStorage s = map_option snd (get_shared_storage w s)"

fun run :: "world \<Rightarrow> call list \<Rightarrow> state \<Rightarrow> state option" where
  "run w [] s = Some s"
| "run w (c # cs) s = (case step w c s of None \<Rightarrow> None | Some s' \<Rightarrow> run w cs s')"

text \<open>\<^verbatim>\<open>get_shared_storage\<close> called \<open>n\<close> times in a row, with the results in order.\<close>

fun shared_calls :: "world \<Rightarrow> nat \<Rightarrow> state \<Rightarrow> ((failure + handle_ref) list \<times> state) option" where
  "shared_calls w 0 s = Some ([], s)"
| "shared_calls w (Suc n) s =
     (case get_shared_storage w s of
        None \<Rightarrow> None
      | Some (r, s1) \<Rightarrow>
          (case shared_calls w n s1 of
             None \<Rightarrow> None
           | Some (rs, s2) \<Rightarrow> Some (r # rs, s2)))"

text \<open>
  No two names of a list are equal up to case: the property of the keys of \<^verbatim>\<open>storages\<close>
  that the lookup before every insertion is there to keep.
\<close>

fun ci_distinct :: "string list \<Rightarrow> bool" where
  "ci_distinct [] = True"
| "ci_distinct (k # ks) = (list_all (\<lambda>k'. \<not> equals_insensitive k k') ks \<and> ci_distinct ks)"

section \<open>Concrete worlds and states\<close>

text \<open>
  A file system in which nothing exists until it is created, and every creation succeeds.
  The process runs in \<^verbatim>\<open>C:/game/bin/x64\<close>.
\<close>

definition world_plain :: world where
  "world_plain = \<lparr> absolute_dot = Some [''C:'', ''game'', ''bin'', ''x64''],
     respond = (\<lambda>h c. case c of
         FsExists p \<Rightarrow> (FsCreateDirectory p \<in> set h, None)
       | FsCreateDirectory p \<Rightarrow> (True, None)
       | FsCopy a b opts \<Rightarrow> (False, None)
       | FsRemoveAll p \<Rightarrow> (True, None)) \<rparr>"

text \<open>The registry after \<^verbatim>\<open>load\<close> in that world, from the initial state.\<close>

definition session_start :: state where
  "session_start = \<lparr> handle = Some 1, logger = Some 2,
     game_path = [''C:'', ''game''],
     storages_path = [''C:'', ''game'', ''r6'', ''storages''],
     storages = [], has_error = False, objects = [],
     fs_calls = [FsExists [''C:'', ''game'', ''r6'', ''storages''],
       FsCreateDirectory [''C:'', ''game'', ''r6'', ''storages''],
       FsExists [''C:'', ''game'', ''red4ext'', ''plugins'', ''RedFileSystem'', ''storages'']],
     messages = [(Info, ''RedFileSystem has been enabled.'', [])] \<rparr>"

text \<open>The same registry after \<^verbatim>\<open>get_shared_storage\<close>, and after \<^verbatim>\<open>get_storage("mymod")\<close>.\<close>

definition session_shared :: state where
  "session_shared = session_start \<lparr>
     storages := [(''shared'', 0)],
     objects := [\<lparr>storage_name = ''shared'',
       storage_path = [''C:'', ''game'', ''r6'', ''storages'', ''shared''],
       permission = Active\<rparr>],
     fs_calls := fs_calls session_start @
       [FsExists [''C:'', ''game'', ''r6'', ''storages'', ''shared''],
        FsCreateDirectory [''C:'', ''game'', ''r6'', ''storages'', ''shared'']],
     messages := messages session_start @
       [(Info, ''Access to shared storage has been granted.'', [])] \<rparr>"

definition session_mymod :: state where
  "session_mymod = session_start \<lparr>
     storages := [(''mymod'', 0)],
     objects := [\<lparr>storage_name = ''mymod'',
       storage_path = [''C:'', ''game'', ''r6'', ''storages'', ''mymod''],
       permission = Active\<rparr>],
     fs_calls := fs_calls session_start @
       [FsExists [''C:'', ''game'', ''r6'', ''storages'', ''mymod''],
        FsCreateDirectory [''C:'', ''game'', ''r6'', ''storages'', ''mymod'']],
     messages := messages session_start @
       [(Info, ''Access to storage \"%s\" has been granted.'', [ArgString ''mymod''])] \<rparr>"

text \<open>
  A file system that holds the root directory of the storages and nothing else, and in which the
  first attempt to create any directory is refused and a second attempt succeeds.
\<close>

definition world_flaky :: world where
  "world_flaky = \<lparr> absolute_dot = Some [''C:'', ''game'', ''bin'', ''x64''],
     respond = (\<lambda>h c. case c of
         FsExists p \<Rightarrow> (p = [''C:'', ''game'', ''r6'', ''storages''], None)
       | FsCreateDirectory p \<Rightarrow>
           (if FsCreateDirectory p \<in> set h then (True, None)
            else (False, Some ''Access is denied.''))
       | FsCopy a b opts \<Rightarrow> (False, None)
       | FsRemoveAll p \<Rightarrow> (True, None)) \<rparr>"

text \<open>
  A file system in which the old location of the storages exists and can be copied.
\<close>

definition world_legacy :: world where
  "world_legacy = \<lparr> absolute_dot = Some [''C:'', ''game'', ''bin'', ''x64''],
     respond = (\<lambda>h c. case c of
         FsExists p \<Rightarrow>
           (p = [''C:'', ''game'', ''red4ext'', ''plugins'', ''RedFileSystem'', ''storages''] \<or>
            FsCreateDirectory p \<in> set h, None)
       | FsCreateDirectory p \<Rightarrow> (True, None)
       | FsCopy a b opts \<Rightarrow> (False, None)
       | FsRemoveAll p \<Rightarrow> (True, None)) \<rparr>"

definition session_flaky :: state where
  "session_flaky = session_start \<lparr>
     fs_calls := [FsExists [''C:'', ''game'', ''r6'', ''storages''],
       FsExists [''C:'', ''game'', ''red4ext'', ''plugins'', ''RedFileSystem'', ''storages'']] \<rparr>"

section \<open>Basic facts\<close>

lemmas model_defs =
  load_def unload_def get_storage_def get_shared_storage_def request_directory_def
  migrate_directory_def fs_do_def log_message_def make_handle_def revoke_permission_def
  legacy_path_def storages_dir_def path_append_def parent_path_def Let_def

lemmas name_defs =
  storage_name_rule_def is_ascii_letter_def equals_insensitive_def to_lower_def char_of_def
  bit_Suc_0_iff

lemma session_start_reachable: "load world_plain (Some 1) (Some 2) initial = Some session_start"
  by (simp add: model_defs world_plain_def initial_def session_start_def)

lemma session_shared_reachable:
  "run world_plain [Load (Some 1) (Some 2), GetSharedStorage] initial = Some session_shared"
  by (simp add: model_defs world_plain_def initial_def session_start_def session_shared_def)

lemma session_mymod_reachable:
  "run world_plain [Load (Some 1) (Some 2), GetStorage ''mymod''] initial = Some session_mymod"
  by (simp add: model_defs name_defs world_plain_def initial_def session_start_def
      session_mymod_def)

lemma session_flaky_reachable:
  "load world_flaky (Some 1) (Some 2) initial = Some session_flaky"
  by (simp add: model_defs world_flaky_def initial_def session_start_def session_flaky_def)

lemma request_directory_state:
  "\<exists>cs. snd (request_directory w p s) = s\<lparr>fs_calls := fs_calls s @ cs\<rparr> \<and>
        (cs = [FsExists p] \<or> cs = [FsExists p, FsCreateDirectory p])"
  by (auto simp add: request_directory_def fs_do_def Let_def split: prod.splits)

lemma equals_insensitive_refl: "equals_insensitive a a"
  by (simp add: equals_insensitive_def)

lemma equals_insensitive_sym: "equals_insensitive a b \<Longrightarrow> equals_insensitive b a"
  by (simp add: equals_insensitive_def)

lemma equals_insensitive_trans:
  "equals_insensitive a b \<Longrightarrow> equals_insensitive b c \<Longrightarrow> equals_insensitive a c"
  by (simp add: equals_insensitive_def)

lemma of_char_to_lower:
  "of_char (to_lower c) =
     (let n = (of_char c :: nat) in if 65 \<le> n \<and> n \<le> 90 then n + 32 else n)"
  by (simp add: to_lower_def Let_def)

lemma is_ascii_letter_lower:
  "is_ascii_letter c \<longleftrightarrow>
     97 \<le> (of_char (to_lower c) :: nat) \<and> (of_char (to_lower c) :: nat) \<le> 122"
  by (auto simp add: of_char_to_lower is_ascii_letter_def Let_def)

lemma letters_ci:
  "map to_lower a = map to_lower b \<Longrightarrow>
   list_all is_ascii_letter a = list_all is_ascii_letter b"
proof (induction a arbitrary: b)
  case Nil
  then show ?case by simp
next
  case (Cons x xs)
  then obtain y ys where b: "b = y # ys"
    by (cases b) auto
  with Cons.prems have "to_lower x = to_lower y" and "map to_lower xs = map to_lower ys"
    by auto
  then show ?case
    using Cons.IH [of ys] b by (simp add: is_ascii_letter_lower)
qed

lemma storage_name_rule_ci:
  "equals_insensitive a b \<Longrightarrow> storage_name_rule a = storage_name_rule b"
  unfolding equals_insensitive_def storage_name_rule_def
  using letters_ci [of a b] map_eq_imp_length_eq [of to_lower a to_lower b] by simp

lemma find_storage_None_iff:
  "find_storage xs n = None \<longleftrightarrow> (\<forall>k \<in> fst ` set xs. \<not> equals_insensitive k n)"
  by (induction xs) auto

lemma find_storage_append:
  "find_storage (xs @ ys) n =
     (case find_storage xs n of Some h \<Rightarrow> Some h | None \<Rightarrow> find_storage ys n)"
  by (induction xs) auto

lemma assign_fresh: "k \<notin> fst ` set xs \<Longrightarrow> assign k v xs = xs @ [(k, v)]"
  by (induction xs) auto

lemma assign_unmatched: "find_storage xs k = None \<Longrightarrow> assign k v xs = xs @ [(k, v)]"
  using assign_fresh [of k xs v] equals_insensitive_refl [of k]
  by (auto simp add: find_storage_None_iff)

lemma find_storage_ci:
  "equals_insensitive a b \<Longrightarrow> find_storage xs a = find_storage xs b"
proof (induction xs)
  case Nil
  show ?case by simp
next
  case (Cons e xs)
  have "equals_insensitive (fst e) a \<longleftrightarrow> equals_insensitive (fst e) b"
    using Cons.prems equals_insensitive_sym equals_insensitive_trans by blast
  with Cons show ?case by simp
qed

section \<open>The branches of \<^verbatim>\<open>get_storage\<close>\<close>

lemma get_storage_without_logger:
  assumes "logger s = None"
  shows "get_storage w name s = None"
proof -
  obtain ok s1 where r: "request_directory w (path_append (storages_path s) name) s = (ok, s1)"
    by (cases "request_directory w (path_append (storages_path s) name) s")
  then obtain cs where s1: "s1 = s\<lparr>fs_calls := fs_calls s @ cs\<rparr>"
    using request_directory_state [of w "path_append (storages_path s) name" s] by auto
  show ?thesis
    using assms r s1
    by (simp add: get_storage_def log_message_def make_handle_def revoke_permission_def
          split: option.splits)
qed

lemma get_storage_disabled:
  assumes "has_error s" and "logger s = Some l"
  shows "get_storage w name s =
           Some (Inl ServiceDisabled,
             s\<lparr>messages := messages s @
                 [(Error, ''RedFileSystem is disabled for all mods.'', [])]\<rparr>)"
  using assms by (simp add: get_storage_def log_message_def)

lemma get_storage_invalid:
  assumes "\<not> has_error s" and "logger s = Some l"
    and "\<not> storage_name_rule name \<or> equals_insensitive name ''shared''"
  shows "get_storage w name s =
           Some (Inl InvalidName,
             s\<lparr>messages := messages s @
                 [(Error, ''Name of storage \"%s\" is not allowed.'', [ArgString name]),
                  (Error, ''See the documentation to fix this issue.'', [])]\<rparr>)"
  using assms by (auto simp add: get_storage_def log_message_def)

lemma get_storage_conflict:
  assumes "\<not> has_error s" and "logger s = Some l"
    and "storage_name_rule name" and "\<not> equals_insensitive name ''shared''"
    and "find_storage (storages s) name = Some h"
  shows "get_storage w name s =
           Some (Inl AlreadyAcquired,
             s\<lparr>objects := (objects s)[h := (objects s ! h)\<lparr>permission := Revoked\<rparr>],
               messages := messages s @
                 [(Error, ''Attempt to access storage \"%s\" several times. Only one mod can access its own storage with RedFileSystem. Access to this storage has been permanently revoked for this session.'',
                   [ArgString name])]\<rparr>)"
  using assms by (simp add: get_storage_def log_message_def revoke_permission_def)

lemma get_storage_provision:
  assumes "\<not> has_error s" and "logger s = Some l"
    and "storage_name_rule name" and "\<not> equals_insensitive name ''shared''"
    and "find_storage (storages s) name = None"
    and "request_directory w (path_append (storages_path s) name) s = (ok, s1)"
  shows "get_storage w name s = Some
           (if ok then
              (Inr (length (objects s)),
               s1\<lparr>objects := objects s @ [\<lparr>storage_name = name,
                      storage_path = path_append (storages_path s) name, permission = Active\<rparr>],
                  storages := storages s @ [(name, length (objects s))],
                  messages := messages s @
                    [(Info, ''Access to storage \"%s\" has been granted.'', [ArgString name])]\<rparr>)
            else
              (Inl ProvisionFailed,
               s1\<lparr>messages := messages s @
                    [(Error, ''Failed to create storage \"%s\".'', [ArgString name])]\<rparr>))"
proof -
  obtain cs where s1: "s1 = s\<lparr>fs_calls := fs_calls s @ cs\<rparr>"
    using request_directory_state [of w "path_append (storages_path s) name" s] assms(6) by auto
  show ?thesis
    using assms s1
    by (simp add: get_storage_def log_message_def make_handle_def assign_unmatched)
qed

lemma get_storage_cases [consumes 1, case_names disabled invalid conflict failed granted]:
  assumes "get_storage w name s = Some (r, s')"
  obtains
    (disabled) m where "has_error s" and "r = Inl ServiceDisabled"
      and "s' = s\<lparr>messages := messages s @ m\<rparr>"
  | (invalid) m where "\<not> has_error s"
      and "\<not> storage_name_rule name \<or> equals_insensitive name ''shared''"
      and "r = Inl InvalidName" and "s' = s\<lparr>messages := messages s @ m\<rparr>"
  | (conflict) h m where "\<not> has_error s" and "storage_name_rule name"
      and "\<not> equals_insensitive name ''shared''"
      and "find_storage (storages s) name = Some h" and "r = Inl AlreadyAcquired"
      and "s' = s\<lparr>objects := (objects s)[h := (objects s ! h)\<lparr>permission := Revoked\<rparr>],
                   messages := messages s @ m\<rparr>"
  | (failed) cs m where "\<not> has_error s" and "find_storage (storages s) name = None"
      and "r = Inl ProvisionFailed"
      and "cs = [FsExists (path_append (storages_path s) name)] \<or>
           cs = [FsExists (path_append (storages_path s) name),
                 FsCreateDirectory (path_append (storages_path s) name)]"
      and "s' = s\<lparr>fs_calls := fs_calls s @ cs, messages := messages s @ m\<rparr>"
  | (granted) cs m where "\<not> has_error s" and "storage_name_rule name"
      and "\<not> equals_insensitive name ''shared''"
      and "find_storage (storages s) name = None" and "r = Inr (length (objects s))"
      and "cs = [FsExists (path_append (storages_path s) name)] \<or>
           cs = [FsExists (path_append (storages_path s) name),
                 FsCreateDirectory (path_append (storages_path s) name)]"
      and "s' = s\<lparr>fs_calls := fs_calls s @ cs,
                   objects := objects s @ [\<lparr>storage_name = name,
                      storage_path = path_append (storages_path s) name, permission = Active\<rparr>],
                   storages := storages s @ [(name, length (objects s))],
                   messages := messages s @ m\<rparr>"
proof -
  obtain l where l: "logger s = Some l"
    using assms get_storage_without_logger [of s w name] by (cases "logger s") auto
  show thesis
  proof (cases "has_error s")
    case True
    then show thesis
      using assms get_storage_disabled [OF True l, of w name] disabled by auto
  next
    case enabled: False
    show thesis
    proof (cases "\<not> storage_name_rule name \<or> equals_insensitive name ''shared''")
      case True
      then show thesis
        using assms get_storage_invalid [OF enabled l True, of w] invalid [OF enabled True]
        by auto
    next
      case valid: False
      then have v: "storage_name_rule name" and ns: "\<not> equals_insensitive name ''shared''"
        by auto
      show thesis
      proof (cases "find_storage (storages s) name")
        case (Some h)
        then show thesis
          using assms get_storage_conflict [OF enabled l v ns Some, of w]
            conflict [OF enabled v ns Some] by auto
      next
        case None
        obtain ok s1 where
          r: "request_directory w (path_append (storages_path s) name) s = (ok, s1)"
          by (cases "request_directory w (path_append (storages_path s) name) s")
        then obtain cs where s1: "s1 = s\<lparr>fs_calls := fs_calls s @ cs\<rparr>"
          and cs: "cs = [FsExists (path_append (storages_path s) name)] \<or>
                   cs = [FsExists (path_append (storages_path s) name),
                         FsCreateDirectory (path_append (storages_path s) name)]"
          using request_directory_state [of w "path_append (storages_path s) name" s] by auto
        show thesis
        proof (cases ok)
          case True
          then show thesis
            using assms get_storage_provision [OF enabled l v ns None r] s1
              granted [OF enabled v ns None _ cs] by auto
        next
          case False
          then show thesis
            using assms get_storage_provision [OF enabled l v ns None r] s1
              failed [OF enabled None _ cs] by auto
        qed
      qed
    qed
  qed
qed


section \<open>The branches of \<^verbatim>\<open>get_shared_storage\<close>\<close>

lemma get_shared_storage_without_logger:
  assumes "logger s = None"
  shows "get_shared_storage w s = None"
proof -
  obtain ok s1 where r: "request_directory w (path_append (storages_path s) ''shared'') s = (ok, s1)"
    by (cases "request_directory w (path_append (storages_path s) ''shared'') s")
  then obtain cs where s1: "s1 = s\<lparr>fs_calls := fs_calls s @ cs\<rparr>"
    using request_directory_state [of w "path_append (storages_path s) ''shared''" s] by auto
  show ?thesis
    using assms r s1
    by (simp add: get_shared_storage_def log_message_def make_handle_def Let_def
          split: option.splits)
qed

lemma get_shared_storage_disabled:
  assumes "has_error s" and "logger s = Some l"
  shows "get_shared_storage w s =
           Some (Inl ServiceDisabled,
             s\<lparr>messages := messages s @ [(Error, ''RedFileSystem is disabled.'', [])]\<rparr>)"
  using assms by (simp add: get_shared_storage_def log_message_def)

lemma get_shared_storage_found:
  assumes "\<not> has_error s" and "logger s = Some l"
    and "find_storage (storages s) ''shared'' = Some h"
  shows "get_shared_storage w s =
           Some (Inr h,
             s\<lparr>messages := messages s @
                 [(Info, ''Access to shared storage has been granted.'', [])]\<rparr>)"
  using assms by (simp add: get_shared_storage_def log_message_def)

lemma get_shared_storage_provision:
  assumes "\<not> has_error s" and "logger s = Some l"
    and "find_storage (storages s) ''shared'' = None"
    and "request_directory w (path_append (storages_path s) ''shared'') s = (ok, s1)"
  shows "get_shared_storage w s = Some
           (if ok then
              (Inr (length (objects s)),
               s1\<lparr>objects := objects s @ [\<lparr>storage_name = ''shared'',
                      storage_path = path_append (storages_path s) ''shared'',
                      permission = Active\<rparr>],
                  storages := storages s @ [(''shared'', length (objects s))],
                  messages := messages s @
                    [(Info, ''Access to shared storage has been granted.'', [])]\<rparr>)
            else
              (Inl ProvisionFailed,
               s1\<lparr>messages := messages s @
                    [(Error, ''Failed to create shared storage.'', [])]\<rparr>))"
proof -
  obtain cs where s1: "s1 = s\<lparr>fs_calls := fs_calls s @ cs\<rparr>"
    using request_directory_state [of w "path_append (storages_path s) ''shared''" s] assms(4)
    by auto
  show ?thesis
    using assms s1
    by (simp add: get_shared_storage_def log_message_def make_handle_def assign_unmatched Let_def)
qed

lemma get_shared_storage_cases [consumes 1, case_names disabled found failed granted]:
  assumes "get_shared_storage w s = Some (r, s')"
  obtains
    (disabled) m where "has_error s" and "r = Inl ServiceDisabled"
      and "s' = s\<lparr>messages := messages s @ m\<rparr>"
  | (found) h m where "\<not> has_error s" and "find_storage (storages s) ''shared'' = Some h"
      and "r = Inr h" and "s' = s\<lparr>messages := messages s @ m\<rparr>"
  | (failed) cs m where "\<not> has_error s" and "find_storage (storages s) ''shared'' = None"
      and "r = Inl ProvisionFailed"
      and "cs = [FsExists (path_append (storages_path s) ''shared'')] \<or>
           cs = [FsExists (path_append (storages_path s) ''shared''),
                 FsCreateDirectory (path_append (storages_path s) ''shared'')]"
      and "s' = s\<lparr>fs_calls := fs_calls s @ cs, messages := messages s @ m\<rparr>"
  | (granted) cs m where "\<not> has_error s"
      and "find_storage (storages s) ''shared'' = None" and "r = Inr (length (objects s))"
      and "cs = [FsExists (path_append (storages_path s) ''shared'')] \<or>
           cs = [FsExists (path_append (storages_path s) ''shared''),
                 FsCreateDirectory (path_append (storages_path s) ''shared'')]"
      and "s' = s\<lparr>fs_calls := fs_calls s @ cs,
                   objects := objects s @ [\<lparr>storage_name = ''shared'',
                      storage_path = path_append (storages_path s) ''shared'',
                      permission = Active\<rparr>],
                   storages := storages s @ [(''shared'', length (objects s))],
                   messages := messages s @ m\<rparr>"
proof -
  obtain l where l: "logger s = Some l"
    using assms get_shared_storage_without_logger [of s w] by (cases "logger s") auto
  show thesis
  proof (cases "has_error s")
    case True
    then show thesis
      using assms get_shared_storage_disabled [OF True l, of w] disabled by auto
  next
    case enabled: False
    show thesis
    proof (cases "find_storage (storages s) ''shared''")
      case (Some h)
      then show thesis
        using assms get_shared_storage_found [OF enabled l Some, of w] found [OF enabled Some]
        by auto
    next
      case None
      obtain ok s1 where
        r: "request_directory w (path_append (storages_path s) ''shared'') s = (ok, s1)"
        by (cases "request_directory w (path_append (storages_path s) ''shared'') s")
      then obtain cs where s1: "s1 = s\<lparr>fs_calls := fs_calls s @ cs\<rparr>"
        and cs: "cs = [FsExists (path_append (storages_path s) ''shared'')] \<or>
                 cs = [FsExists (path_append (storages_path s) ''shared''),
                       FsCreateDirectory (path_append (storages_path s) ''shared'')]"
        using request_directory_state [of w "path_append (storages_path s) ''shared''" s]
        by auto
      show thesis
      proof (cases ok)
        case True
        then show thesis
          using assms get_shared_storage_provision [OF enabled l None r] s1
            granted [OF enabled None _ cs] by auto
      next
        case False
        then show thesis
          using assms get_shared_storage_provision [OF enabled l None r] s1
            failed [OF enabled None _ cs] by auto
      qed
    qed
  qed
qed

section \<open>\<^verbatim>\<open>load\<close> and \<^verbatim>\<open>unload\<close>\<close>


lemma request_directory_fields:
  assumes "request_directory w p s = (ok, s')"
  shows "handle s' = handle s \<and> logger s' = logger s \<and> game_path s' = game_path s \<and>
         storages_path s' = storages_path s \<and> storages s' = storages s \<and>
         has_error s' = has_error s \<and> objects s' = objects s \<and> messages s' = messages s \<and>
         (fs_calls s' = fs_calls s @ [FsExists p] \<or>
          fs_calls s' = fs_calls s @ [FsExists p, FsCreateDirectory p])"
  using request_directory_state [of w p s] assms by auto

lemma load_without_logger: "load w p_handle None s = None"
proof (cases "absolute_dot w")
  case None
  then show ?thesis by (simp add: load_def)
next
  case (Some p)
  define s1 where "s1 = s\<lparr>handle := p_handle, logger := None,
    game_path := parent_path (parent_path p),
    storages_path := storages_dir (parent_path (parent_path p))\<rparr>"
  obtain ok s2 where r: "request_directory w (storages_dir (parent_path (parent_path p))) s1 = (ok, s2)"
    by (cases "request_directory w (storages_dir (parent_path (parent_path p))) s1")
  then obtain cs where s2: "s2 = s1\<lparr>fs_calls := fs_calls s1 @ cs\<rparr>"
    using request_directory_state [of w "storages_dir (parent_path (parent_path p))" s1] by auto
  show ?thesis
    using Some r s2 unfolding s1_def
    by (simp add: load_def Let_def migrate_directory_def fs_do_def log_message_def
        split: prod.splits option.splits)
qed

lemma load_eq:
  assumes "absolute_dot w = Some p"
    and "gp = parent_path (parent_path p)"
    and "request_directory w (storages_dir gp)
           (s\<lparr>handle := p_handle, logger := Some l, game_path := gp,
              storages_path := storages_dir gp\<rparr>) = (ok, s2)"
  shows "load w p_handle (Some l) s = Some
    (if \<not> ok then
       s2\<lparr>has_error := True,
          messages := messages s @
            [(Error, ''Failed to create directory at \"%s\".'', [ArgPath (storages_dir gp)]),
             (Error, ''RedFileSystem has been disabled.'', [])]\<rparr>
     else
       case respond w (fs_calls s2) (FsExists (legacy_path gp)) of
         (has_old_path, Some e) \<Rightarrow>
           s2\<lparr>fs_calls := fs_calls s2 @ [FsExists (legacy_path gp)], has_error := True,
              messages := messages s @
                [(Warn, ''Failed to migrate directory from \"%s\" to \"%s\".'',
                    [ArgPath (legacy_path gp), ArgPath (storages_dir gp)]),
                 (Warn, ''You need to manually move content yourself.'', [])]\<rparr>
       | (False, None) \<Rightarrow>
           s2\<lparr>fs_calls := fs_calls s2 @ [FsExists (legacy_path gp)], has_error := False,
              messages := messages s @ [(Info, ''RedFileSystem has been enabled.'', [])]\<rparr>
       | (True, None) \<Rightarrow>
           (case snd (respond w (fs_calls s2 @ [FsExists (legacy_path gp)])
                   (FsCopy (legacy_path gp) (storages_dir gp) [overwrite_existing, recursive])) of
              None \<Rightarrow>
                s2\<lparr>fs_calls := fs_calls s2 @ [FsExists (legacy_path gp),
                     FsCopy (legacy_path gp) (storages_dir gp) [overwrite_existing, recursive]],
                   has_error := False,
                   messages := messages s @ [(Info, ''RedFileSystem has been enabled.'', [])]\<rparr>
            | Some msg \<Rightarrow>
                s2\<lparr>fs_calls := fs_calls s2 @ [FsExists (legacy_path gp),
                     FsCopy (legacy_path gp) (storages_dir gp) [overwrite_existing, recursive]],
                   has_error := True,
                   messages := messages s @
                     [(Error, ''Could not migrate \"storages\" due to: %s.'', [ArgString msg]),
                      (Warn, ''Failed to migrate directory from \"%s\" to \"%s\".'',
                         [ArgPath (legacy_path gp), ArgPath (storages_dir gp)]),
                      (Warn, ''You need to manually move content yourself.'', [])]\<rparr>))"
proof -
  obtain cs where s2: "s2 = s\<lparr>handle := p_handle, logger := Some l, game_path := gp,
      storages_path := storages_dir gp, fs_calls := fs_calls s @ cs\<rparr>"
    using request_directory_state [of w "storages_dir gp"
        "s\<lparr>handle := p_handle, logger := Some l, game_path := gp,
              storages_path := storages_dir gp\<rparr>"] assms(3)
    by auto
  show ?thesis
    using assms(1,3) s2 unfolding assms(2) [symmetric]
    by (simp add: load_def Let_def assms(2) [symmetric] migrate_directory_def fs_do_def
        log_message_def split: prod.splits option.splits)
qed


lemma load_fields:
  assumes "load w p_handle p_logger s = Some s'"
  shows "p_logger \<noteq> None \<and> handle s' = p_handle \<and> logger s' = p_logger \<and>
         storages s' = storages s \<and> objects s' = objects s \<and>
         storages_path s' = storages_dir (game_path s') \<and>
         (\<exists>cs. fs_calls s' = fs_calls s @ cs \<and> (\<forall>q. FsRemoveAll q \<notin> set cs))"
proof -
  obtain l where l: "p_logger = Some l"
    using assms load_without_logger [of w p_handle s] by (cases p_logger) auto
  obtain p where p: "absolute_dot w = Some p"
    using assms by (cases "absolute_dot w") (auto simp add: load_def)
  define gp where "gp = parent_path (parent_path p)"
  define s1 where "s1 = s\<lparr>handle := p_handle, logger := Some l, game_path := gp,
    storages_path := storages_dir gp\<rparr>"
  obtain ok s2 where r: "request_directory w (storages_dir gp) s1 = (ok, s2)"
    by (cases "request_directory w (storages_dir gp) s1")
  note f = request_directory_fields [OF r]
  have s': "load w p_handle (Some l) s = Some s'"
    using assms l by simp
  show ?thesis
    using f l s' unfolding load_eq [OF p gp_def r [unfolded s1_def]] s1_def
    by (auto split: if_splits prod.splits option.splits bool.splits)
qed

lemma unload_eq:
  assumes "logger s = Some l"
  shows "unload w s = Some
    (s\<lparr>fs_calls := fs_calls s @ [FsRemoveAll (legacy_path (game_path s))],
       storages := [], has_error := True,
       messages := messages s @ [(Info, ''RedFileSystem has been terminated.'', [])],
       handle := None, logger := None\<rparr>)"
  using assms by (simp add: unload_def fs_do_def log_message_def Let_def)

lemma unload_without_logger: "logger s = None \<Longrightarrow> unload w s = None"
  by (simp add: unload_def fs_do_def log_message_def Let_def)

section \<open>What one call changes\<close>

lemma find_storage_None_list_all:
  "find_storage xs n = None \<longleftrightarrow> list_all (\<lambda>k. \<not> equals_insensitive k n) (map fst xs)"
  by (induction xs) auto

lemma ci_distinct_snoc:
  "ci_distinct (ks @ [n]) \<longleftrightarrow> ci_distinct ks \<and> list_all (\<lambda>k. \<not> equals_insensitive k n) ks"
  by (induction ks) auto

lemma ci_distinct_matches:
  "ci_distinct (map fst xs) \<Longrightarrow>
   length (filter (\<lambda>e. equals_insensitive (fst e) n) xs) \<le> 1"
proof (induction xs)
  case Nil
  show ?case by simp
next
  case (Cons e xs)
  show ?case
  proof (cases "equals_insensitive (fst e) n")
    case False
    with Cons show ?thesis by simp
  next
    case True
    have "\<not> equals_insensitive (fst x) n" if "x \<in> set xs" for x
    proof
      assume "equals_insensitive (fst x) n"
      then have "equals_insensitive (fst e) (fst x)"
        using True equals_insensitive_sym equals_insensitive_trans by blast
      moreover have "\<not> equals_insensitive (fst e) (fst x)"
        using Cons.prems that by (auto simp add: list_all_iff)
      ultimately show False by simp
    qed
    then have "filter (\<lambda>e. equals_insensitive (fst e) n) xs = []"
      by (simp add: filter_empty_conv)
    with True show ?thesis by simp
  qed
qed

text \<open>
  The order in which an \<^verbatim>\<open>std::unordered_map\<close> is visited is not specified. While the keys
  are different up to case it does not matter to \<^verbatim>\<open>find_storage\<close>: any list of the same
  entries gives the same answer.
\<close>

lemma find_storage_Some_entry:
  "find_storage xs n = Some h \<Longrightarrow> \<exists>k. (k, h) \<in> set xs \<and> equals_insensitive k n"
  by (induction xs) (auto split: if_splits)

lemma find_storage_entry:
  "ci_distinct (map fst xs) \<Longrightarrow> (k, h) \<in> set xs \<Longrightarrow> equals_insensitive k n \<Longrightarrow>
   find_storage xs n = Some h"
proof (induction xs)
  case Nil
  then show ?case by simp
next
  case (Cons e xs)
  show ?case
  proof (cases "equals_insensitive (fst e) n")
    case False
    with Cons show ?thesis by auto
  next
    case True
    have "(k, h) \<notin> set xs"
    proof
      assume "(k, h) \<in> set xs"
      then have "\<not> equals_insensitive (fst e) k"
        using Cons.prems(1) by (auto simp add: list_all_iff)
      moreover have "equals_insensitive (fst e) k"
        using True Cons.prems(3) equals_insensitive_sym equals_insensitive_trans by blast
      ultimately show False by simp
    qed
    then have "e = (k, h)"
      using Cons.prems(2) by simp
    then show ?thesis
      using True by simp
  qed
qed

lemma find_storage_any_order:
  assumes "ci_distinct (map fst xs)" and "set ys = set xs"
  shows "find_storage ys n = find_storage xs n"
proof (cases "find_storage ys n")
  case None
  then have "find_storage xs n = None"
    using assms(2) by (simp add: find_storage_None_iff)
  with None show ?thesis by simp
next
  case (Some h)
  then obtain k where "(k, h) \<in> set xs" and "equals_insensitive k n"
    using find_storage_Some_entry [of ys n h] assms(2) by auto
  then show ?thesis
    using Some find_storage_entry [OF assms(1)] by simp
qed

lemma step_storages:
  assumes "step w c s = Some s'"
  shows "storages s' = storages s \<or> (c = Unload \<and> storages s' = []) \<or>
         (\<exists>name. (c = GetStorage name \<or> c = GetSharedStorage \<and> name = ''shared'') \<and>
            find_storage (storages s) name = None \<and>
            storages s' = storages s @ [(name, length (objects s))])"
proof (cases c)
  case (Load p_handle p_logger)
  then show ?thesis using assms load_fields [of w p_handle p_logger s s'] by simp
next
  case Unload
  then show ?thesis
    using assms unload_eq [of s _ w] unload_without_logger [of s w]
    by (cases "logger s") auto
next
  case (GetStorage name)
  then obtain r where "get_storage w name s = Some (r, s')"
    using assms by auto
  then show ?thesis
    using GetStorage by (cases rule: get_storage_cases) auto
next
  case GetSharedStorage
  then obtain r where "get_shared_storage w s = Some (r, s')"
    using assms by auto
  then show ?thesis
    using GetSharedStorage by (cases rule: get_shared_storage_cases) auto
qed

lemma step_ci_distinct:
  assumes "step w c s = Some s'" and "ci_distinct (map fst (storages s))"
  shows "ci_distinct (map fst (storages s'))"
  using step_storages [OF assms(1)] assms(2)
  by (auto simp add: ci_distinct_snoc find_storage_None_list_all)

lemma run_ci_distinct:
  "run w cs s = Some s' \<Longrightarrow> ci_distinct (map fst (storages s)) \<Longrightarrow>
   ci_distinct (map fst (storages s'))"
proof (induction cs arbitrary: s)
  case Nil
  then show ?case by simp
next
  case (Cons c cs)
  then obtain t where t: "step w c s = Some t" and rest: "run w cs t = Some s'"
    by (auto split: option.splits)
  show ?case
    using Cons.IH [OF rest] step_ci_distinct [OF t Cons.prems(2)] by simp
qed

lemma step_objects:
  assumes "step w c s = Some s'"
  shows "objects s' = objects s \<or>
         (\<exists>obj. objects s' = objects s @ [obj]) \<or>
         (\<exists>h. objects s' = (objects s)[h := (objects s ! h)\<lparr>permission := Revoked\<rparr>])"
proof (cases c)
  case (Load p_handle p_logger)
  then show ?thesis using assms load_fields [of w p_handle p_logger s s'] by simp
next
  case Unload
  then show ?thesis
    using assms unload_eq [of s _ w] unload_without_logger [of s w]
    by (cases "logger s") auto
next
  case (GetStorage name)
  then obtain r where "get_storage w name s = Some (r, s')"
    using assms by auto
  then show ?thesis
    by (cases rule: get_storage_cases) auto
next
  case GetSharedStorage
  then obtain r where "get_shared_storage w s = Some (r, s')"
    using assms by auto
  then show ?thesis
    by (cases rule: get_shared_storage_cases) auto
qed

lemma revoked_after_update:
  "h < length xs \<Longrightarrow> permission (xs ! h) = Revoked \<Longrightarrow>
   permission (xs[i := (xs ! i)\<lparr>permission := Revoked\<rparr>] ! h) = Revoked"
  by (cases "i = h") auto

lemma step_keeps_revoked:
  assumes "step w c s = Some s'" and "h < length (objects s)"
    and "permission (objects s ! h) = Revoked"
  shows "h < length (objects s') \<and> permission (objects s' ! h) = Revoked"
  using step_objects [OF assms(1)] assms(2,3)
  by (auto simp add: nth_append revoked_after_update)

lemma step_logger:
  assumes "step w c s = Some s'" and "c \<noteq> Unload"
  shows "logger s' \<noteq> None"
proof (cases c)
  case (Load p_handle p_logger)
  then show ?thesis using assms load_fields [of w p_handle p_logger s s'] by simp
next
  case Unload
  then show ?thesis using assms by simp
next
  case (GetStorage name)
  then obtain r where g: "get_storage w name s = Some (r, s')"
    using assms by auto
  then have "logger s \<noteq> None"
    using get_storage_without_logger [of s w name] by auto
  with g show ?thesis
    by (cases rule: get_storage_cases) auto
next
  case GetSharedStorage
  then obtain r where g: "get_shared_storage w s = Some (r, s')"
    using assms by auto
  then have "logger s \<noteq> None"
    using get_shared_storage_without_logger [of s w] by auto
  with g show ?thesis
    by (cases rule: get_shared_storage_cases) auto
qed

lemma step_keeps_entry:
  assumes "step w c s = Some s'" and "c \<noteq> Unload"
    and "find_storage (storages s) n = Some h"
  shows "find_storage (storages s') n = Some h"
  using step_storages [OF assms(1)] assms(2,3)
  by (auto simp add: find_storage_append)

lemma run_keeps_entry:
  "run w cs s = Some t \<Longrightarrow> Unload \<notin> set cs \<Longrightarrow> logger s \<noteq> None \<Longrightarrow>
   find_storage (storages s) n = Some h \<Longrightarrow>
   logger t \<noteq> None \<and> find_storage (storages t) n = Some h"
proof (induction cs arbitrary: s)
  case Nil
  then show ?case by simp
next
  case (Cons c cs)
  then obtain u where u: "step w c s = Some u" and rest: "run w cs u = Some t"
    by (auto split: option.splits)
  have c: "c \<noteq> Unload" and cs: "Unload \<notin> set cs"
    using Cons.prems(2) by auto
  show ?case
    using Cons.IH [OF rest cs step_logger [OF u c] step_keeps_entry [OF u c Cons.prems(4)]] .
qed

lemma get_storage_fails_on_entry:
  assumes "logger s = Some l" and "find_storage (storages s) name = Some h"
    and "storage_name_rule name" and "\<not> equals_insensitive name ''shared''"
  shows "\<exists>e s'. get_storage w name s = Some (Inl e, s') \<and>
           (\<not> has_error s \<longrightarrow> e = AlreadyAcquired) \<and> storages s' = storages s \<and>
           fs_calls s' = fs_calls s"
proof (cases "has_error s")
  case True
  then show ?thesis
    using get_storage_disabled [OF True assms(1), of w name] by simp
next
  case False
  then show ?thesis
    using get_storage_conflict [OF False assms(1,3,4,2), of w] by simp
qed

lemma run_keeps_poisoned:
  "run w cs s = Some t \<Longrightarrow> Unload \<notin> set cs \<Longrightarrow> logger s \<noteq> None \<Longrightarrow>
   find_storage (storages s) n = Some h \<Longrightarrow> h < length (objects s) \<Longrightarrow>
   permission (objects s ! h) = Revoked \<Longrightarrow>
   logger t \<noteq> None \<and> find_storage (storages t) n = Some h \<and> h < length (objects t) \<and>
   permission (objects t ! h) = Revoked"
proof (induction cs arbitrary: s)
  case Nil
  then show ?case by simp
next
  case (Cons c cs)
  then obtain u where u: "step w c s = Some u" and rest: "run w cs u = Some t"
    by (auto split: option.splits)
  have c: "c \<noteq> Unload" and cs: "Unload \<notin> set cs"
    using Cons.prems(2) by auto
  show ?case
    using Cons.IH [OF rest cs step_logger [OF u c] step_keeps_entry [OF u c Cons.prems(4)]]
      step_keeps_revoked [OF u Cons.prems(5,6)]
    by simp
qed

lemma get_storage_fails_on_poisoned:
  assumes "logger s = Some l" and "find_storage (storages s) name = Some h"
    and "h < length (objects s)" and "permission (objects s ! h) = Revoked"
    and "storage_name_rule name" and "\<not> equals_insensitive name ''shared''"
  shows "\<exists>e s'. get_storage w name s = Some (Inl e, s') \<and>
           (\<not> has_error s \<longrightarrow> e = AlreadyAcquired) \<and> storages s' = storages s \<and>
           fs_calls s' = fs_calls s \<and> length (objects s') = length (objects s) \<and>
           permission (objects s' ! h) = Revoked"
proof (cases "has_error s")
  case True
  then show ?thesis
    using get_storage_disabled [OF True assms(1), of w name] assms(4) by simp
next
  case False
  then show ?thesis
    using get_storage_conflict [OF False assms(1,5,6,2), of w] assms(3) by simp
qed

text \<open>
  An enabled registry has its logger: \<^verbatim>\<open>has_error\<close> is cleared by \<^verbatim>\<open>load\<close> alone, after
  it has stored the logger, and \<^verbatim>\<open>unload\<close> sets it again before it resets the pointer.
\<close>

lemma step_enabled_has_logger:
  assumes "step w c s = Some s'" and "has_error s \<or> logger s \<noteq> None"
  shows "has_error s' \<or> logger s' \<noteq> None"
proof (cases c)
  case (Load p_handle p_logger)
  then show ?thesis using assms load_fields [of w p_handle p_logger s s'] by auto
next
  case Unload
  then show ?thesis
    using assms unload_eq [of s _ w] unload_without_logger [of s w]
    by (cases "logger s") auto
next
  case (GetStorage name)
  then obtain r where "get_storage w name s = Some (r, s')"
    using assms by auto
  then show ?thesis
    using assms(2) by (cases rule: get_storage_cases) auto
next
  case GetSharedStorage
  then obtain r where "get_shared_storage w s = Some (r, s')"
    using assms by auto
  then show ?thesis
    using assms(2) by (cases rule: get_shared_storage_cases) auto
qed

lemma run_enabled_has_logger:
  "run w cs s = Some s' \<Longrightarrow> has_error s \<or> logger s \<noteq> None \<Longrightarrow>
   has_error s' \<or> logger s' \<noteq> None"
proof (induction cs arbitrary: s)
  case Nil
  then show ?case by simp
next
  case (Cons c cs)
  then obtain t where t: "step w c s = Some t" and rest: "run w cs t = Some s'"
    by (auto split: option.splits)
  from Cons.IH [OF rest step_enabled_has_logger [OF t Cons.prems(2)]] show ?case .
qed

lemma reachable_enabled_has_logger:
  assumes "run w cs initial = Some s" and "\<not> has_error s"
  shows "\<exists>l. logger s = Some l"
  using run_enabled_has_logger [OF assms(1)] assms(2) by (auto simp add: initial_def)

section \<open>Double acquisition\<close>

text \<open>
  C1, as amended. In an enabled registry, for a name that passes the name check (3 to 24 letters,
  not a spelling of "shared") and under which a handle is registered up to case,
  \<^verbatim>\<open>get_storage\<close> revokes the registered handle and returns the null handle of the
  already-acquired branch; the map keeps its entry and no file system call is issued. From then
  on, whatever is called short of \<^verbatim>\<open>unload\<close>, the entry is still found under every casing
  of the name, the handle stays revoked, and \<^verbatim>\<open>get_storage\<close> for any casing of the name
  fails again: with the already-acquired branch while the registry is enabled.
\<close>

theorem get_storage_conflict_poisons_name:
  assumes "\<not> has_error s" and "logger s = Some l"
    and "storage_name_rule name" and "\<not> equals_insensitive name ''shared''"
    and "find_storage (storages s) name = Some h" and "h < length (objects s)"
  shows "\<exists>s'. get_storage w name s = Some (Inl AlreadyAcquired, s') \<and>
           permission (objects s' ! h) = Revoked \<and> storages s' = storages s \<and>
           fs_calls s' = fs_calls s \<and>
           (\<forall>cs t name'. Unload \<notin> set cs \<and> run w cs s' = Some t \<and>
                equals_insensitive name' name \<longrightarrow>
              find_storage (storages t) name' = Some h \<and>
              (\<exists>e t'. get_storage w name' t = Some (Inl e, t') \<and>
                 (\<not> has_error t \<longrightarrow> e = AlreadyAcquired) \<and> storages t' = storages t \<and>
                 permission (objects t' ! h) = Revoked))"
proof -
  define s' where "s' = s\<lparr>objects := (objects s)[h := (objects s ! h)\<lparr>permission := Revoked\<rparr>],
    messages := messages s @
      [(Error, ''Attempt to access storage \"%s\" several times. Only one mod can access its own storage with RedFileSystem. Access to this storage has been permanently revoked for this session.'',
        [ArgString name])]\<rparr>"
  have call: "get_storage w name s = Some (Inl AlreadyAcquired, s')"
    unfolding s'_def by (rule get_storage_conflict [OF assms(1-5)])
  have now: "logger s' \<noteq> None" "find_storage (storages s') name = Some h"
    "h < length (objects s')" "permission (objects s' ! h) = Revoked"
    using assms by (simp_all add: s'_def)
  have later: "find_storage (storages t) name' = Some h \<and>
      (\<exists>e t'. get_storage w name' t = Some (Inl e, t') \<and>
         (\<not> has_error t \<longrightarrow> e = AlreadyAcquired) \<and> storages t' = storages t \<and>
         permission (objects t' ! h) = Revoked)"
    if cs: "Unload \<notin> set cs" and run: "run w cs s' = Some t"
      and ci: "equals_insensitive name' name" for cs t name'
  proof -
    note kept = run_keeps_poisoned [OF run cs now]
    then obtain l' where l': "logger t = Some l'"
      by auto
    have found: "find_storage (storages t) name' = Some h"
      using kept find_storage_ci [OF ci] by simp
    have valid: "storage_name_rule name'"
      using storage_name_rule_ci [OF ci] assms(3) by simp
    have free: "\<not> equals_insensitive name' ''shared''"
      using assms(4) ci equals_insensitive_sym equals_insensitive_trans by blast
    show ?thesis
      using get_storage_fails_on_poisoned [OF l' found _ _ valid free, of w] kept found
      by auto
  qed
  have same: "storages s' = storages s" "fs_calls s' = fs_calls s"
    by (simp_all add: s'_def)
  show ?thesis
    using call now(4) same later by blast
qed

theorem get_storage_conflict_poisons_name_witness:
  "\<not> has_error session_mymod \<and> logger session_mymod = Some 2 \<and>
   storage_name_rule ''MyMod'' \<and> \<not> equals_insensitive ''MyMod'' ''shared'' \<and>
   find_storage (storages session_mymod) ''MyMod'' = Some 0 \<and>
   0 < length (objects session_mymod) \<and>
   (\<exists>s' e t. get_storage world_plain ''MyMod'' session_mymod = Some (Inl AlreadyAcquired, s') \<and>
      permission (objects s' ! 0) = Revoked \<and>
      get_storage world_plain ''MYMOD'' s' = Some (Inl e, t))"
proof -
  have h: "\<not> has_error session_mymod" "logger session_mymod = Some 2"
    "storage_name_rule ''MyMod''" "\<not> equals_insensitive ''MyMod'' ''shared''"
    "find_storage (storages session_mymod) ''MyMod'' = Some 0"
    "0 < length (objects session_mymod)"
    by (simp_all add: session_mymod_def session_start_def name_defs)
  have ci: "equals_insensitive ''MYMOD'' ''MyMod''"
    by (simp add: name_defs)
  obtain s' where s': "get_storage world_plain ''MyMod'' session_mymod = Some (Inl AlreadyAcquired, s')"
    "permission (objects s' ! 0) = Revoked"
    and later: "\<And>cs t name'. Unload \<notin> set cs \<Longrightarrow> run world_plain cs s' = Some t \<Longrightarrow>
        equals_insensitive name' ''MyMod'' \<Longrightarrow>
        \<exists>e t'. get_storage world_plain name' t = Some (Inl e, t')"
    using get_storage_conflict_poisons_name [OF h, of world_plain] by blast
  show ?thesis
    using h s' later [of "[]" s' "''MYMOD''"] ci by auto
qed

text \<open>
  The claim as it is written covers every registered name. After \<^verbatim>\<open>get_shared_storage\<close>
  the name "shared" is registered, and \<^verbatim>\<open>get_storage("shared")\<close> stops at the name check:
  it returns the null handle of the invalid-name branch and the shared handle stays active.
\<close>

theorem registered_shared_name_is_not_revoked:
  "run world_plain [Load (Some 1) (Some 2), GetSharedStorage] initial = Some session_shared \<and>
   find_storage (storages session_shared) ''shared'' = Some 0 \<and>
   get_storage world_plain ''shared'' session_shared =
     Some (Inl InvalidName,
       session_shared\<lparr>messages := messages session_shared @
         [(Error, ''Name of storage \"%s\" is not allowed.'', [ArgString ''shared'']),
          (Error, ''See the documentation to fix this issue.'', [])]\<rparr>) \<and>
   permission (objects session_shared ! 0) = Active"
proof -
  have e: "\<not> has_error session_shared" and l: "logger session_shared = Some 2"
    by (simp_all add: session_shared_def session_start_def)
  have n: "\<not> storage_name_rule ''shared'' \<or> equals_insensitive ''shared'' ''shared''"
    by (simp add: equals_insensitive_refl)
  show ?thesis
    using session_shared_reachable get_storage_invalid [OF e l n, of world_plain]
    by (simp add: session_shared_def session_start_def name_defs)
qed

section \<open>One entry per name\<close>

text \<open>
  C2. In every state that a sequence of \<^verbatim>\<open>load\<close>, \<^verbatim>\<open>get_storage\<close>,
  \<^verbatim>\<open>get_shared_storage\<close> and \<^verbatim>\<open>unload\<close> calls reaches from the initial one, no two
  keys of \<^verbatim>\<open>storages\<close> are equal up to case, so at most one entry, and at most one live
  handle, answers to a name. A further call leaves the map alone, empties it (\<^verbatim>\<open>unload\<close>),
  or adds one entry for a name that \<^verbatim>\<open>find_storage\<close> did not find.
\<close>

theorem storages_keys_unique_up_to_case:
  assumes "run w cs initial = Some s"
  shows "ci_distinct (map fst (storages s)) \<and>
         (\<forall>n. length (filter (\<lambda>e. equals_insensitive (fst e) n) (storages s)) \<le> 1) \<and>
         (\<forall>c s'. step w c s = Some s' \<longrightarrow>
            storages s' = storages s \<or> (c = Unload \<and> storages s' = []) \<or>
            (\<exists>name. (c = GetStorage name \<or> c = GetSharedStorage \<and> name = ''shared'') \<and>
               find_storage (storages s) name = None \<and>
               storages s' = storages s @ [(name, length (objects s))]))"
proof -
  have "ci_distinct (map fst (storages initial))"
    by (simp add: initial_def)
  then have d: "ci_distinct (map fst (storages s))"
    using run_ci_distinct [OF assms] by simp
  show ?thesis
    using d ci_distinct_matches [OF d] step_storages [of w _ s] by blast
qed

theorem storages_keys_unique_up_to_case_witness:
  "\<exists>s. run world_plain
          [Load (Some 1) (Some 2), GetStorage ''mymod'', GetSharedStorage, GetStorage ''MyMod'']
          initial = Some s \<and>
        map fst (storages s) = [''mymod'', ''shared''] \<and>
        ci_distinct (map fst (storages s))"
proof -
  have "\<exists>s. run world_plain
          [Load (Some 1) (Some 2), GetStorage ''mymod'', GetSharedStorage, GetStorage ''MyMod'']
          initial = Some s \<and> map fst (storages s) = [''mymod'', ''shared'']"
    by (simp add: model_defs name_defs world_plain_def initial_def)
  then obtain s where s: "run world_plain
          [Load (Some 1) (Some 2), GetStorage ''mymod'', GetSharedStorage, GetStorage ''MyMod'']
          initial = Some s" and k: "map fst (storages s) = [''mymod'', ''shared'']"
    by (elim exE conjE)
  have "ci_distinct (map fst (storages s))"
    using storages_keys_unique_up_to_case [OF s] by (elim conjE)
  with s k show ?thesis
    by (intro exI [of _ s] conjI)
qed

section \<open>First acquisition\<close>

text \<open>
  C4. A call of \<^verbatim>\<open>get_storage\<close> that returns a handle was made with a name that matches
  the rule and had no entry. The handle is a new object, active, bound to the name as the caller
  wrote it and to the directory \<^verbatim>\<open>storages_path / name\<close>, and the map gains exactly one
  entry, under the caller's spelling. From then on, whatever is called short of \<^verbatim>\<open>unload\<close>,
  a lookup of any case variant of the name finds that same entry, and a request for the variant
  fails (in an enabled registry, with the already-acquired branch), adds no entry and issues no
  file system call.
\<close>

theorem get_storage_first_acquisition:
  assumes "get_storage w name s = Some (Inr h, s')"
  shows "storage_name_rule name \<and> find_storage (storages s) name = None \<and>
         h = length (objects s) \<and>
         objects s' = objects s @ [\<lparr>storage_name = name,
            storage_path = path_append (storages_path s') name, permission = Active\<rparr>] \<and>
         storage_path (objects s' ! h) = path_append (storages_path s') name \<and>
         storages s' = storages s @ [(name, h)] \<and>
         (\<forall>cs t name'. Unload \<notin> set cs \<and> run w cs s' = Some t \<and>
              equals_insensitive name' name \<longrightarrow>
            find_storage (storages t) name' = Some h \<and>
            (\<exists>e t'. get_storage w name' t = Some (Inl e, t') \<and>
               (\<not> has_error t \<longrightarrow> e = AlreadyAcquired) \<and>
               storages t' = storages t \<and> fs_calls t' = fs_calls t))"
proof -
  obtain l where l: "logger s = Some l"
    using assms get_storage_without_logger [of s w name] by (cases "logger s") auto
  from assms show ?thesis
  proof (cases rule: get_storage_cases)
    case (granted cs m)
    have h: "h = length (objects s)"
      using granted(5) by simp
    have entry: "find_storage (storages s') name = Some h"
      using granted(4,7) h by (simp add: find_storage_append equals_insensitive_refl)
    have l': "logger s' \<noteq> None"
      using granted(7) l by simp
    have variant: "find_storage (storages t) name' = Some h \<and>
        (\<exists>e t'. get_storage w name' t = Some (Inl e, t') \<and>
           (\<not> has_error t \<longrightarrow> e = AlreadyAcquired) \<and>
           storages t' = storages t \<and> fs_calls t' = fs_calls t)"
      if cs: "Unload \<notin> set cs" and run: "run w cs s' = Some t"
        and ci: "equals_insensitive name' name" for cs t name'
    proof -
      note kept = run_keeps_entry [OF run cs l' entry]
      then obtain lt where lt: "logger t = Some lt"
        by auto
      have found: "find_storage (storages t) name' = Some h"
        using kept find_storage_ci [OF ci] by simp
      have valid: "storage_name_rule name'"
        using storage_name_rule_ci [OF ci] granted(2) by simp
      have free: "\<not> equals_insensitive name' ''shared''"
        using granted(3) ci equals_insensitive_sym equals_insensitive_trans by blast
      show ?thesis
        using get_storage_fails_on_entry [OF lt found valid free, of w] found by blast
    qed
    have made: "storage_name_rule name \<and> find_storage (storages s) name = None \<and>
        objects s' = objects s @ [\<lparr>storage_name = name,
          storage_path = path_append (storages_path s') name, permission = Active\<rparr>] \<and>
        storage_path (objects s' ! h) = path_append (storages_path s') name \<and>
        storages s' = storages s @ [(name, h)]"
      using granted h by simp
    show ?thesis
      using made h variant by blast
  qed simp_all
qed

theorem get_storage_first_acquisition_witness:
  "get_storage world_plain ''mymod'' session_start = Some (Inr 0, session_mymod) \<and>
   storage_path (objects session_mymod ! 0) = [''C:'', ''game'', ''r6'', ''storages'', ''mymod''] \<and>
   storages session_mymod = [(''mymod'', 0)] \<and>
   find_storage (storages session_mymod) ''MYMOD'' = Some 0 \<and>
   (\<exists>e t'. get_storage world_plain ''MYMOD'' session_mymod = Some (Inl e, t'))"
proof -
  have call: "get_storage world_plain ''mymod'' session_start = Some (Inr 0, session_mymod)"
    by (simp add: model_defs name_defs world_plain_def session_start_def session_mymod_def)
  have ci: "equals_insensitive ''MYMOD'' ''mymod''"
    by (simp add: name_defs)
  have later: "\<And>cs t name'. Unload \<notin> set cs \<Longrightarrow> run world_plain cs session_mymod = Some t \<Longrightarrow>
      equals_insensitive name' ''mymod'' \<Longrightarrow>
      find_storage (storages t) name' = Some 0 \<and>
      (\<exists>e t'. get_storage world_plain name' t = Some (Inl e, t'))"
    using get_storage_first_acquisition [OF call] by blast
  have "storage_path (objects session_mymod ! 0) =
      [''C:'', ''game'', ''r6'', ''storages'', ''mymod'']"
    and "storages session_mymod = [(''mymod'', 0)]"
    by (simp_all add: session_mymod_def)
  then show ?thesis
    using call later [of "[]" session_mymod "''MYMOD''"] ci by simp
qed

section \<open>Shared storage\<close>

lemma shared_calls_found:
  "\<not> has_error s \<Longrightarrow> logger s = Some l \<Longrightarrow> find_storage (storages s) ''shared'' = Some h \<Longrightarrow>
   \<exists>s2. shared_calls w n s = Some (replicate n (Inr h), s2) \<and> storages s2 = storages s \<and>
     objects s2 = objects s \<and> fs_calls s2 = fs_calls s"
proof (induction n arbitrary: s)
  case 0
  show ?case by simp
next
  case (Suc n)
  define s1 where "s1 = s\<lparr>messages := messages s @
    [(Info, ''Access to shared storage has been granted.'', [])]\<rparr>"
  have call: "get_shared_storage w s = Some (Inr h, s1)"
    unfolding s1_def by (rule get_shared_storage_found [OF Suc.prems])
  have "\<not> has_error s1" "logger s1 = Some l" "find_storage (storages s1) ''shared'' = Some h"
    using Suc.prems by (simp_all add: s1_def)
  from Suc.IH [OF this] obtain s2 where
    "shared_calls w n s1 = Some (replicate n (Inr h), s2)" "storages s2 = storages s1"
    "objects s2 = objects s1" "fs_calls s2 = fs_calls s1"
    by blast
  then show ?case
    using call by (simp add: s1_def)
qed

text \<open>
  C6. Once \<^verbatim>\<open>get_shared_storage\<close> has returned a handle, any number of further calls in
  a row return that same handle. They revoke nothing (the handle objects are unchanged), add no
  entry to the map and issue no file system call, so no directory is created.
\<close>

theorem get_shared_storage_repeats:
  assumes "get_shared_storage w s = Some (Inr h, s1)"
  shows "\<exists>s2. shared_calls w n s1 = Some (replicate n (Inr h), s2) \<and>
           storages s2 = storages s1 \<and> objects s2 = objects s1 \<and> fs_calls s2 = fs_calls s1"
proof -
  obtain l where l: "logger s = Some l"
    using assms get_shared_storage_without_logger [of s w] by (cases "logger s") auto
  from assms have "\<not> has_error s1 \<and> logger s1 = Some l \<and>
      find_storage (storages s1) ''shared'' = Some h"
    using l
    by (cases rule: get_shared_storage_cases)
      (auto simp add: find_storage_append equals_insensitive_refl)
  then show ?thesis
    using shared_calls_found [of s1 l h w n] by simp
qed

theorem get_shared_storage_repeats_witness:
  "get_shared_storage world_plain session_start = Some (Inr 0, session_shared) \<and>
   (\<exists>s2. shared_calls world_plain 3 session_shared = Some ([Inr 0, Inr 0, Inr 0], s2) \<and>
      storages s2 = storages session_shared \<and> objects s2 = objects session_shared \<and>
      fs_calls s2 = fs_calls session_shared)"
proof -
  have first: "get_shared_storage world_plain session_start = Some (Inr 0, session_shared)"
    by (simp add: model_defs world_plain_def session_start_def session_shared_def)
  show ?thesis
    using get_shared_storage_repeats [OF first, of 3] first
    by (simp add: numeral_3_eq_3)
qed

section \<open>Failed provisioning\<close>

text \<open>
  C9. When \<^verbatim>\<open>request_directory\<close> fails for the directory of a new name,
  \<^verbatim>\<open>get_storage\<close> returns the null handle of the provisioning branch. The map and the
  handle objects are unchanged and the registry stays enabled; the directory was asked for once
  (one \<^verbatim>\<open>exists\<close>, at most one \<^verbatim>\<open>create_directory\<close>) and one error line was logged.
  A second request for the name, made when the directory can be provided, returns a handle.
\<close>

theorem get_storage_provision_failure:
  assumes "\<not> has_error s" and "logger s = Some l"
    and "storage_name_rule name" and "\<not> equals_insensitive name ''shared''"
    and "find_storage (storages s) name = None"
    and "\<not> fst (request_directory w (path_append (storages_path s) name) s)"
  shows "\<exists>s'. get_storage w name s = Some (Inl ProvisionFailed, s') \<and>
           storages s' = storages s \<and> objects s' = objects s \<and> \<not> has_error s' \<and>
           (fs_calls s' = fs_calls s @ [FsExists (path_append (storages_path s) name)] \<or>
            fs_calls s' = fs_calls s @ [FsExists (path_append (storages_path s) name),
               FsCreateDirectory (path_append (storages_path s) name)]) \<and>
           messages s' = messages s @
             [(Error, ''Failed to create storage \"%s\".'', [ArgString name])] \<and>
           (fst (request_directory w (path_append (storages_path s) name) s') \<longrightarrow>
              (\<exists>s''. get_storage w name s' = Some (Inr (length (objects s)), s'') \<and>
                 find_storage (storages s'') name = Some (length (objects s))))"
proof -
  define p where "p = path_append (storages_path s) name"
  obtain ok s1 where r: "request_directory w p s = (ok, s1)"
    by (cases "request_directory w p s")
  then have ok: "\<not> ok"
    using assms(6) by (simp add: p_def)
  note f = request_directory_fields [OF r]
  define s' where "s' = s1\<lparr>messages := messages s @
    [(Error, ''Failed to create storage \"%s\".'', [ArgString name])]\<rparr>"
  have call: "get_storage w name s = Some (Inl ProvisionFailed, s')"
    using get_storage_provision [OF assms(1-5) r [unfolded p_def]] ok by (simp add: s'_def)
  have now: "\<not> has_error s'" "logger s' = Some l" "find_storage (storages s') name = None"
    "storages_path s' = storages_path s" "objects s' = objects s" "storages s' = storages s"
    using f assms by (simp_all add: s'_def)
  have again: "\<exists>s''. get_storage w name s' = Some (Inr (length (objects s)), s'') \<and>
      find_storage (storages s'') name = Some (length (objects s))"
    if req: "fst (request_directory w p s')"
  proof -
    obtain s2 where r2: "request_directory w (path_append (storages_path s') name) s' = (True, s2)"
      using req now(4) by (cases "request_directory w p s'") (auto simp add: p_def)
    show ?thesis
      using get_storage_provision [OF now(1,2) assms(3,4) now(3) r2] now(3,5,6)
      by (simp add: find_storage_append equals_insensitive_refl)
  qed
  have "fs_calls s' = fs_calls s @ [FsExists p] \<or>
      fs_calls s' = fs_calls s @ [FsExists p, FsCreateDirectory p]"
    using f by (simp add: s'_def)
  moreover have "messages s' = messages s @
      [(Error, ''Failed to create storage \"%s\".'', [ArgString name])]"
    by (simp add: s'_def)
  ultimately show ?thesis
    using call now again unfolding p_def by blast
qed

theorem get_storage_provision_failure_witness:
  "\<not> has_error session_flaky \<and> logger session_flaky = Some 2 \<and>
   storage_name_rule ''mymod'' \<and> \<not> equals_insensitive ''mymod'' ''shared'' \<and>
   find_storage (storages session_flaky) ''mymod'' = None \<and>
   \<not> fst (request_directory world_flaky (path_append (storages_path session_flaky) ''mymod'')
          session_flaky) \<and>
   (\<exists>s' s''. get_storage world_flaky ''mymod'' session_flaky = Some (Inl ProvisionFailed, s') \<and>
      storages s' = [] \<and> get_storage world_flaky ''mymod'' s' = Some (Inr 0, s''))"
proof -
  have h: "\<not> has_error session_flaky" "logger session_flaky = Some 2"
    "storage_name_rule ''mymod''" "\<not> equals_insensitive ''mymod'' ''shared''"
    "find_storage (storages session_flaky) ''mymod'' = None"
    "\<not> fst (request_directory world_flaky (path_append (storages_path session_flaky) ''mymod'')
          session_flaky)"
    by (simp_all add: session_flaky_def session_start_def name_defs world_flaky_def
        request_directory_def fs_do_def path_append_def)
  obtain s' where s': "get_storage world_flaky ''mymod'' session_flaky = Some (Inl ProvisionFailed, s')"
    "storages s' = storages session_flaky" "objects s' = objects session_flaky"
    "fs_calls s' = fs_calls session_flaky @
        [FsExists (path_append (storages_path session_flaky) ''mymod'')] \<or>
     fs_calls s' = fs_calls session_flaky @
        [FsExists (path_append (storages_path session_flaky) ''mymod''),
         FsCreateDirectory (path_append (storages_path session_flaky) ''mymod'')]"
    and again: "fst (request_directory world_flaky
          (path_append (storages_path session_flaky) ''mymod'') s') \<Longrightarrow>
        \<exists>s''. get_storage world_flaky ''mymod'' s' =
          Some (Inr (length (objects session_flaky)), s'')"
    using get_storage_provision_failure [OF h] by blast
  have "fs_calls s' = fs_calls session_flaky @
        [FsExists (path_append (storages_path session_flaky) ''mymod''),
         FsCreateDirectory (path_append (storages_path session_flaky) ''mymod'')]"
    using s'(1)
    by (auto simp add: get_storage_def log_message_def request_directory_def fs_do_def
        path_append_def session_flaky_def session_start_def name_defs world_flaky_def Let_def)
  then have "fst (request_directory world_flaky
      (path_append (storages_path session_flaky) ''mymod'') s')"
    by (simp add: request_directory_def fs_do_def world_flaky_def path_append_def
        session_flaky_def session_start_def)
  from again [OF this] show ?thesis
    using h s'(1,2) by (auto simp add: session_flaky_def session_start_def)
qed

section \<open>Migration at load\<close>

text \<open>
  C7. \<^verbatim>\<open>load\<close> first asks for the root directory (\<open>ensured\<close> tells whether it is there
  afterwards) and then migrates. The theorem names the file system's answers to the two calls of
  \<^verbatim>\<open>migrate_directory\<close> and says what \<^verbatim>\<open>load\<close> does for each:
  \<^item> the old directory exists: one \<^verbatim>\<open>copy\<close> of it into the root directory, with the options
    \<^verbatim>\<open>overwrite_existing\<close> and \<^verbatim>\<open>recursive\<close>, is the last call, and the registry is
    disabled exactly when the copy reports an error;
  \<^item> the old directory does not exist: nothing is copied and the registry is enabled;
  \<^item> the existence check itself fails, or the root directory is missing: the registry is
    disabled and nothing is copied.
  So \<^verbatim>\<open>has_error\<close> is cleared on full success only. No \<^verbatim>\<open>remove_all\<close> is among the
  calls that \<^verbatim>\<open>load\<close> issues: the old directory is left in place.
\<close>

theorem load_migrates_legacy_directory:
  assumes "absolute_dot w = Some p" and "gp = parent_path (parent_path p)"
    and "request_directory w (storages_dir gp)
           (s\<lparr>handle := p_handle, logger := Some l, game_path := gp,
              storages_path := storages_dir gp\<rparr>) = (ensured, s2)"
    and "respond w (fs_calls s2) (FsExists (legacy_path gp)) = (has_old_path, exists_error)"
    and "respond w (fs_calls s2 @ [FsExists (legacy_path gp)])
           (FsCopy (legacy_path gp) (storages_dir gp) [overwrite_existing, recursive]) =
         (copied, copy_error)"
  shows "\<exists>s'. load w p_handle (Some l) s = Some s' \<and> storages_path s' = storages_dir gp \<and>
           (ensured \<and> exists_error = None \<and> has_old_path \<longrightarrow>
              fs_calls s' = fs_calls s2 @ [FsExists (legacy_path gp),
                FsCopy (legacy_path gp) (storages_dir gp) [overwrite_existing, recursive]] \<and>
              has_error s' = (copy_error \<noteq> None)) \<and>
           (ensured \<and> exists_error = None \<and> \<not> has_old_path \<longrightarrow>
              fs_calls s' = fs_calls s2 @ [FsExists (legacy_path gp)] \<and> \<not> has_error s') \<and>
           (ensured \<and> exists_error \<noteq> None \<longrightarrow>
              fs_calls s' = fs_calls s2 @ [FsExists (legacy_path gp)] \<and> has_error s') \<and>
           (\<not> ensured \<longrightarrow> fs_calls s' = fs_calls s2 \<and> has_error s') \<and>
           (\<not> has_error s' \<longleftrightarrow>
              ensured \<and> exists_error = None \<and> (has_old_path \<longrightarrow> copy_error = None)) \<and>
           (\<forall>q. FsRemoveAll q \<notin> set (drop (length (fs_calls s)) (fs_calls s')))"
proof -
  note f = request_directory_fields [OF assms(3)]
  have c: "fs_calls s2 = fs_calls s @ [FsExists (storages_dir gp)] \<or>
      fs_calls s2 = fs_calls s @ [FsExists (storages_dir gp), FsCreateDirectory (storages_dir gp)]"
    using f by simp
  have p: "storages_path s2 = storages_dir gp"
    using f by simp
  show ?thesis
    unfolding load_eq [OF assms(1-3)] using assms(4,5) c p
    by (cases ensured; cases has_old_path; cases exists_error; cases copy_error) auto
qed


theorem load_migrates_legacy_directory_witness:
  "absolute_dot world_legacy = Some [''C:'', ''game'', ''bin'', ''x64''] \<and>
   [''C:'', ''game''] = parent_path (parent_path [''C:'', ''game'', ''bin'', ''x64'']) \<and>
   request_directory world_legacy (storages_dir [''C:'', ''game''])
     (initial\<lparr>handle := Some 1, logger := Some 2, game_path := [''C:'', ''game''],
        storages_path := storages_dir [''C:'', ''game'']\<rparr>) =
     (True, initial\<lparr>handle := Some 1, logger := Some 2, game_path := [''C:'', ''game''],
        storages_path := storages_dir [''C:'', ''game''],
        fs_calls := [FsExists (storages_dir [''C:'', ''game'']),
          FsCreateDirectory (storages_dir [''C:'', ''game''])]\<rparr>) \<and>
   respond world_legacy
     [FsExists (storages_dir [''C:'', ''game'']), FsCreateDirectory (storages_dir [''C:'', ''game''])]
     (FsExists (legacy_path [''C:'', ''game''])) = (True, None) \<and>
   respond world_legacy
     [FsExists (storages_dir [''C:'', ''game'']), FsCreateDirectory (storages_dir [''C:'', ''game'']),
      FsExists (legacy_path [''C:'', ''game''])]
     (FsCopy (legacy_path [''C:'', ''game'']) (storages_dir [''C:'', ''game''])
        [overwrite_existing, recursive]) = (False, None) \<and>
   (\<exists>s'. load world_legacy (Some 1) (Some 2) initial = Some s' \<and> \<not> has_error s' \<and>
      fs_calls s' =
        [FsExists [''C:'', ''game'', ''r6'', ''storages''],
         FsCreateDirectory [''C:'', ''game'', ''r6'', ''storages''],
         FsExists [''C:'', ''game'', ''red4ext'', ''plugins'', ''RedFileSystem'', ''storages''],
         FsCopy [''C:'', ''game'', ''red4ext'', ''plugins'', ''RedFileSystem'', ''storages'']
           [''C:'', ''game'', ''r6'', ''storages''] [overwrite_existing, recursive]])"
proof -
  have a: "absolute_dot world_legacy = Some [''C:'', ''game'', ''bin'', ''x64'']"
    by (simp add: world_legacy_def)
  have g: "[''C:'', ''game''] = parent_path (parent_path [''C:'', ''game'', ''bin'', ''x64''])"
    by (simp add: parent_path_def)
  have r: "request_directory world_legacy (storages_dir [''C:'', ''game''])
     (initial\<lparr>handle := Some 1, logger := Some 2, game_path := [''C:'', ''game''],
        storages_path := storages_dir [''C:'', ''game'']\<rparr>) =
     (True, initial\<lparr>handle := Some 1, logger := Some 2, game_path := [''C:'', ''game''],
        storages_path := storages_dir [''C:'', ''game''],
        fs_calls := [FsExists (storages_dir [''C:'', ''game'']),
          FsCreateDirectory (storages_dir [''C:'', ''game''])]\<rparr>)"
    by (simp add: request_directory_def fs_do_def world_legacy_def initial_def storages_dir_def
        path_append_def)
  have e: "respond world_legacy
     (fs_calls (initial\<lparr>handle := Some 1, logger := Some 2, game_path := [''C:'', ''game''],
        storages_path := storages_dir [''C:'', ''game''],
        fs_calls := [FsExists (storages_dir [''C:'', ''game'']),
          FsCreateDirectory (storages_dir [''C:'', ''game''])]\<rparr>))
     (FsExists (legacy_path [''C:'', ''game''])) = (True, None)"
    by (simp add: world_legacy_def legacy_path_def path_append_def)
  have c: "respond world_legacy
     (fs_calls (initial\<lparr>handle := Some 1, logger := Some 2, game_path := [''C:'', ''game''],
        storages_path := storages_dir [''C:'', ''game''],
        fs_calls := [FsExists (storages_dir [''C:'', ''game'']),
          FsCreateDirectory (storages_dir [''C:'', ''game''])]\<rparr>) @
      [FsExists (legacy_path [''C:'', ''game''])])
     (FsCopy (legacy_path [''C:'', ''game'']) (storages_dir [''C:'', ''game''])
        [overwrite_existing, recursive]) = (False, None)"
    by (simp add: world_legacy_def)
  show ?thesis
    using load_migrates_legacy_directory [OF a g r e c] a r e c
    by (auto simp add: legacy_path_def storages_dir_def path_append_def parent_path_def
        initial_def)
qed

section \<open>Teardown\<close>

lemma step_fs_calls:
  assumes "step w c s = Some s'"
  shows "\<exists>new. fs_calls s' = fs_calls s @ new \<and>
           (\<forall>q. FsRemoveAll q \<in> set new \<longrightarrow> c = Unload \<and> q = legacy_path (game_path s))"
proof (cases c)
  case (Load p_handle p_logger)
  then show ?thesis using assms load_fields [of w p_handle p_logger s s'] by auto
next
  case Unload
  then show ?thesis
    using assms unload_eq [of s _ w] unload_without_logger [of s w]
    by (cases "logger s") auto
next
  case (GetStorage name)
  then obtain r where "get_storage w name s = Some (r, s')"
    using assms by auto
  then show ?thesis
    by (cases rule: get_storage_cases) auto
next
  case GetSharedStorage
  then obtain r where "get_shared_storage w s = Some (r, s')"
    using assms by auto
  then show ?thesis
    by (cases rule: get_shared_storage_cases) auto
qed

lemma step_paths:
  assumes "step w c s = Some s'"
  shows "storages_path s' = storages_dir (game_path s') \<or>
         (game_path s' = game_path s \<and> storages_path s' = storages_path s)"
proof (cases c)
  case (Load p_handle p_logger)
  then show ?thesis using assms load_fields [of w p_handle p_logger s s'] by auto
next
  case Unload
  then show ?thesis
    using assms unload_eq [of s _ w] unload_without_logger [of s w]
    by (cases "logger s") auto
next
  case (GetStorage name)
  then obtain r where "get_storage w name s = Some (r, s')"
    using assms by auto
  then show ?thesis
    by (cases rule: get_storage_cases) auto
next
  case GetSharedStorage
  then obtain r where "get_shared_storage w s = Some (r, s')"
    using assms by auto
  then show ?thesis
    by (cases rule: get_shared_storage_cases) auto
qed

lemma run_paths:
  "run w cs s = Some s' \<Longrightarrow>
   storages_path s = storages_dir (game_path s) \<or> (game_path s = [] \<and> storages_path s = []) \<Longrightarrow>
   storages_path s' = storages_dir (game_path s') \<or> (game_path s' = [] \<and> storages_path s' = [])"
proof (induction cs arbitrary: s)
  case Nil
  then show ?case by simp
next
  case (Cons c cs)
  then obtain t where t: "step w c s = Some t" and rest: "run w cs t = Some s'"
    by (auto split: option.splits)
  have "storages_path t = storages_dir (game_path t) \<or> (game_path t = [] \<and> storages_path t = [])"
    using step_paths [OF t] Cons.prems(2) by auto
  from Cons.IH [OF rest this] show ?case .
qed

lemma legacy_path_apart:
  assumes "sp = storages_dir gp \<or> (gp = [] \<and> sp = [])"
  shows "\<not> prefix (legacy_path gp) sp \<and> \<not> prefix (legacy_path gp) (path_append sp name)"
  using assms by (auto simp add: legacy_path_def storages_dir_def path_append_def)

text \<open>
  C8. In a registry that has a logger, in any state reached from the initial one,
  \<^verbatim>\<open>unload\<close> issues one \<^verbatim>\<open>remove_all\<close> on the old directory, clears the map, sets
  \<^verbatim>\<open>has_error\<close>, logs a line and resets \<^verbatim>\<open>handle\<close> and \<^verbatim>\<open>logger\<close>; the result does
  not depend on what the file system answers to the removal. Of all calls, only \<^verbatim>\<open>unload\<close>
  issues a \<^verbatim>\<open>remove_all\<close>, and only on the old directory, which is neither the root
  directory of the storages nor above it or above the directory of any storage: no call, a
  revoking \<^verbatim>\<open>get_storage\<close> included, removes one of these.
\<close>

theorem unload_tears_down:
  assumes "run w cs initial = Some s" and "logger s = Some l"
  shows "unload w s = Some
           (s\<lparr>fs_calls := fs_calls s @ [FsRemoveAll (legacy_path (game_path s))],
              storages := [], has_error := True,
              messages := messages s @ [(Info, ''RedFileSystem has been terminated.'', [])],
              handle := None, logger := None\<rparr>) \<and>
         (\<forall>c s'. step w c s = Some s' \<longrightarrow>
            (\<exists>new. fs_calls s' = fs_calls s @ new \<and>
               (\<forall>q. FsRemoveAll q \<in> set new \<longrightarrow>
                  c = Unload \<and> q = legacy_path (game_path s)))) \<and>
         \<not> prefix (legacy_path (game_path s)) (storages_path s) \<and>
         (\<forall>name. \<not> prefix (legacy_path (game_path s)) (path_append (storages_path s) name))"
proof -
  have "storages_path initial = storages_dir (game_path initial) \<or>
      (game_path initial = [] \<and> storages_path initial = [])"
    by (simp add: initial_def)
  from run_paths [OF assms(1) this] show ?thesis
    using unload_eq [OF assms(2), of w] step_fs_calls [of w _ s] legacy_path_apart
    by blast
qed

theorem unload_tears_down_witness:
  "run world_plain [Load (Some 1) (Some 2)] initial = Some session_start \<and>
   logger session_start = Some 2 \<and>
   unload world_plain session_start = Some
     (session_start\<lparr>fs_calls := fs_calls session_start @
          [FsRemoveAll [''C:'', ''game'', ''red4ext'', ''plugins'', ''RedFileSystem'', ''storages'']],
        storages := [], has_error := True,
        messages := messages session_start @
          [(Info, ''RedFileSystem has been terminated.'', [])],
        handle := None, logger := None\<rparr>)"
proof -
  have r: "run world_plain [Load (Some 1) (Some 2)] initial = Some session_start"
    using session_start_reachable by simp
  have l: "logger session_start = Some 2"
    by (simp add: session_start_def)
  show ?thesis
    using unload_tears_down [OF r l] r l
    by (simp add: session_start_def legacy_path_def path_append_def)
qed

section \<open>Rejected names\<close>

text \<open>
  C3. In an enabled registry (which, when reached from the initial state, has its logger:
  \<open>reachable_enabled_has_logger\<close>), \<^verbatim>\<open>get_storage\<close> answers a name that is not made of 3 to 24
  ASCII letters, and any spelling of the reserved name "shared", with the null handle of the
  invalid-name branch. It issues no file system call, so it creates no directory, and it leaves
  the map of storages and the handle objects as they were.
\<close>

theorem get_storage_rejects_invalid_name:
  assumes "\<not> has_error s" and "logger s = Some l"
    and "\<not> storage_name_rule name \<or> equals_insensitive name ''shared''"
  shows "\<exists>s'. get_storage w name s = Some (Inl InvalidName, s') \<and>
           fs_calls s' = fs_calls s \<and> storages s' = storages s \<and> objects s' = objects s"
  using get_storage_invalid [OF assms, of w] by simp

theorem get_storage_rejects_invalid_name_witness:
  "\<not> has_error session_start \<and> logger session_start = Some 2 \<and>
   \<not> storage_name_rule ''a1b'' \<and>
   (\<exists>s'. get_storage world_plain ''a1b'' session_start = Some (Inl InvalidName, s') \<and>
      fs_calls s' = fs_calls session_start \<and> storages s' = storages session_start \<and>
      objects s' = objects session_start)"
proof -
  have e: "\<not> has_error session_start" and l: "logger session_start = Some 2"
    by (simp_all add: session_start_def)
  have n: "\<not> storage_name_rule ''a1b''"
    by (simp add: name_defs)
  show ?thesis
    using get_storage_rejects_invalid_name [OF e l disjI1 [OF n], of world_plain] e l n
    by simp
qed

section \<open>Calls on a disabled registry\<close>

lemma call_after_unload:
  assumes "unload w s = Some s'"
  shows "has_error s' \<and> get_storage w name s' = None \<and> get_shared_storage w s' = None"
proof -
  obtain l where l: "logger s = Some l"
    using assms unload_without_logger [of s w] by (cases "logger s") auto
  have "logger s' = None" and "has_error s'"
    using assms unload_eq [OF l, of w] by auto
  then show ?thesis
    using get_storage_without_logger [of s' w name] get_shared_storage_without_logger [of s' w]
    by simp
qed

text \<open>
  C5 says that while \<^verbatim>\<open>has_error\<close> is set, initially and after \<^verbatim>\<open>unload\<close> included,
  both acquisition functions fail with the service-disabled result and change nothing. After a
  failed \<^verbatim>\<open>load\<close> the code does that: the logger is set, and \<open>get_storage_disabled\<close> and
  \<open>get_shared_storage_disabled\<close> give the result, with one more logged line as the only
  change. Before \<^verbatim>\<open>load\<close> it does not: the flag \<^verbatim>\<open>has_error\<close> is set and the pointer
  \<^verbatim>\<open>logger\<close> is null, both functions enter the disabled branch, whose first statement calls
  through \<^verbatim>\<open>logger\<close>, and neither of them returns. The same holds in the state that
  \<^verbatim>\<open>unload\<close> leaves (\<open>call_after_unload\<close>).
\<close>

theorem disabled_call_before_load:
  "has_error initial \<and> get_storage w name initial = None \<and> get_shared_storage w initial = None"
  by (simp add: get_storage_def get_shared_storage_def initial_def log_message_def)

theorem disabled_call_before_load_witness:
  "has_error initial \<and> get_storage world_plain ''mymod'' initial = None \<and>
   get_shared_storage world_plain initial = None"
  using disabled_call_before_load [of world_plain "''mymod''"] by simp

end
